theory Spec2Isabelle
  imports Main "HOL-Library.Sublist"
begin

section \<open>Python strings\<close>

text \<open>
  A Python \<open>str\<close> is a sequence of Unicode code points. It is modelled as a list of
  natural numbers, one per code point, so that \<open>length\<close> counts what Python's \<open>len\<close>
  counts and the emoji glyphs of the icon table are single characters.
  \<open>py\<close> turns an ASCII literal into such a string.
\<close>

type_synonym pystr = "nat list"

definition py :: "string \<Rightarrow> pystr" where
  "py s = map of_char s"

text \<open>
  \<open>str.isspace\<close> of one character, which is also what \<open>\s\<close> matches in a \<open>str\<close> pattern
  of the \<open>re\<close> module and what \<open>str.strip()\<close> removes: the code points
  9-13, 28-32, 0x85, 0xA0, 0x1680, 0x2000-0x200A, 0x2028, 0x2029, 0x202F, 0x205F, 0x3000.
\<close>

definition isspace :: "nat \<Rightarrow> bool" where
  "isspace c \<longleftrightarrow>
     (9 \<le> c \<and> c \<le> 13) \<or> (28 \<le> c \<and> c \<le> 32) \<or> c = 133 \<or> c = 160 \<or> c = 5760 \<or>
     (8192 \<le> c \<and> c \<le> 8202) \<or> c = 8232 \<or> c = 8233 \<or> c = 8239 \<or> c = 8287 \<or> c = 12288"

definition lstrip :: "pystr \<Rightarrow> pystr" where
  "lstrip s = dropWhile isspace s"

definition rstrip :: "pystr \<Rightarrow> pystr" where
  "rstrip s = rev (dropWhile isspace (rev s))"

text \<open>\<open>s.strip()\<close>\<close>

definition strip :: "pystr \<Rightarrow> pystr" where
  "strip s = rstrip (lstrip s)"

text \<open>\<open>s.rstrip("#")\<close>: the character \<open>#\<close> is code point 35.\<close>

definition rstrip_hash :: "pystr \<Rightarrow> pystr" where
  "rstrip_hash s = rev (dropWhile (\<lambda>c. c = 35) (rev s))"

text \<open>
  \<open>s.split("\n")\<close>: the pieces between the line feeds (code point 10), of which there is
  always at least one. The case of an empty list of pieces does not arise
  (\<open>split_nl_not_Nil\<close> below).
\<close>

fun split_nl :: "pystr \<Rightarrow> pystr list" where
  "split_nl [] = [[]]"
| "split_nl (c # cs) =
     (if c = 10 then [] # split_nl cs
      else (case split_nl cs of [] \<Rightarrow> [[c]] | l # ls \<Rightarrow> (c # l) # ls))"

text \<open>\<open>"\n".join(ls)\<close>\<close>

fun join_nl :: "pystr list \<Rightarrow> pystr" where
  "join_nl [] = []"
| "join_nl [l] = l"
| "join_nl (l # ls) = l @ [10] @ join_nl ls"

text \<open>\<open>a in b\<close> on strings: \<open>a\<close> occurs in \<open>b\<close> as a contiguous substring.\<close>

fun str_contains :: "pystr \<Rightarrow> pystr \<Rightarrow> bool" where
  "str_contains a [] = (a = [])"
| "str_contains a (y # ys) = (prefix a (y # ys) \<or> str_contains a ys)"

text \<open>
  \<open>s.lower()\<close>. CPython lowers a string position by position. An ASCII code point maps
  to one code point: \<open>A\<close>-\<open>Z\<close> (65-90) to \<open>a\<close>-\<open>z\<close>, anything else to itself. What a
  code point from 128 on becomes is read from the Unicode character database (one to
  three code points, and for the capital sigma a choice that depends on its
  neighbours). That table is not part of this program: it is the parameter \<open>U\<close>, which
  gives the lower-case expansion of position \<open>i\<close> of the string \<open>s\<close>.
\<close>

type_synonym unicode_lower = "pystr \<Rightarrow> nat \<Rightarrow> pystr"

definition ascii_lower :: "nat \<Rightarrow> nat" where
  "ascii_lower c = (if 65 \<le> c \<and> c \<le> 90 then c + 32 else c)"

fun lower_from :: "unicode_lower \<Rightarrow> pystr \<Rightarrow> nat \<Rightarrow> pystr \<Rightarrow> pystr" where
  "lower_from U s i [] = []"
| "lower_from U s i (c # cs) =
     (if c < 128 then [ascii_lower c] else U s i) @ lower_from U s (Suc i) cs"

definition lower :: "unicode_lower \<Rightarrow> pystr \<Rightarrow> pystr" where
  "lower U s = lower_from U s 0 s"

text \<open>
  An instance of the parameter for evaluating the program on concrete inputs: it leaves
  every code point from 128 on as it is.
\<close>

definition unchanged_above_ascii :: unicode_lower where
  "unchanged_above_ascii s i = [s ! i]"

section \<open>The heading pattern\<close>

text \<open>
  \<open>re.match(r"^##\s+(.+)", t)\<close>, returning \<open>group(1)\<close> when the pattern matches at the
  start of \<open>t\<close>. \<open>dot_plus\<close> is the greedy \<open>(.+)\<close>: the longest run of characters other
  than the line feed, which must not be empty. \<open>ws_plus_then\<close> is \<open>\s+(.+)\<close>: the
  greedy \<open>\s+\<close> first tries to take one more white-space character and gives it back
  when the rest of the pattern fails after it.
\<close>

definition dot_plus :: "pystr \<Rightarrow> pystr option" where
  "dot_plus r = (let g = takeWhile (\<lambda>c. c \<noteq> 10) r in if g = [] then None else Some g)"

fun ws_plus_then :: "pystr \<Rightarrow> pystr option" where
  "ws_plus_then [] = None"
| "ws_plus_then (c # r) =
     (if isspace c
      then (case ws_plus_then r of Some g \<Rightarrow> Some g | None \<Rightarrow> dot_plus r)
      else None)"

fun heading_match :: "pystr \<Rightarrow> pystr option" where
  "heading_match (a # b # r) = (if a = 35 \<and> b = 35 then ws_plus_then r else None)"
| "heading_match _ = None"

section \<open>Sections and their icons\<close>

record analysis_section =
  title :: pystr
  icon :: pystr
  body :: pystr

text \<open>
  \<open>SECTION_ICONS\<close>: a Python dict iterates in insertion order, so the table is the list
  of its items in the order of the source. The glyphs are single code points.
\<close>

definition SECTION_ICONS :: "(pystr \<times> pystr) list" where
  "SECTION_ICONS =
     [(py ''Key Strengths'', [128170]),
      (py ''Skill Gaps'', [128269]),
      (py ''ATS Optimisation Suggestions'', [127919]),
      (py ''ATS Optimization Suggestions'', [127919]),
      (py ''Match Percentage'', [128202]),
      (py ''Overall Summary'', [128221])]"

text \<open>
  The loop of \<open>_build_section\<close> over the items of the table: the first key whose lower-case
  form occurs in the lower-case title sets the icon and ends the loop (\<open>break\<close>);
  otherwise the icon keeps the value it had.
\<close>

fun icon_loop :: "unicode_lower \<Rightarrow> pystr \<Rightarrow> pystr \<Rightarrow> (pystr \<times> pystr) list \<Rightarrow> pystr" where
  "icon_loop U ttl ic [] = ic"
| "icon_loop U ttl ic ((key, val) # items) =
     (if str_contains (lower U key) (lower U ttl) then val else icon_loop U ttl ic items)"

definition build_section :: "unicode_lower \<Rightarrow> pystr \<Rightarrow> pystr list \<Rightarrow> analysis_section" where
  "build_section U ttl body_lines =
     \<lparr>title = ttl,
      icon = icon_loop U ttl [128204] SECTION_ICONS,
      body = strip (join_nl body_lines)\<rparr>"

section \<open>The section parser\<close>

text \<open>The three local variables of \<open>parse_analysis_sections\<close> that the loop updates.\<close>

record parser_state =
  sections :: "analysis_section list"
  current_title :: "pystr option"
  current_body_lines :: "pystr list"

definition initial_state :: parser_state where
  "initial_state = \<lparr>sections = [], current_title = None, current_body_lines = []\<rparr>"

text \<open>One pass through the body of the \<open>for\<close> loop, for the line \<open>line\<close>.\<close>

definition parse_line :: "unicode_lower \<Rightarrow> parser_state \<Rightarrow> pystr \<Rightarrow> parser_state" where
  "parse_line U st line =
     (case heading_match (strip line) of
        Some g \<Rightarrow>
          (let st' = (case current_title st of
                        Some t \<Rightarrow> st\<lparr>sections := sections st @ [build_section U t (current_body_lines st)],
                                      current_body_lines := []\<rparr>
                      | None \<Rightarrow> st)
           in st'\<lparr>current_title := Some (strip (rstrip_hash (strip g)))\<rparr>)
      | None \<Rightarrow> st\<lparr>current_body_lines := current_body_lines st @ [line]\<rparr>)"

text \<open>What follows the loop: the last section is appended, if a heading was seen.\<close>

definition flush_last :: "unicode_lower \<Rightarrow> parser_state \<Rightarrow> analysis_section list" where
  "flush_last U st =
     (case current_title st of
        Some t \<Rightarrow> sections st @ [build_section U t (current_body_lines st)]
      | None \<Rightarrow> sections st)"

definition fallback_section :: "pystr \<Rightarrow> analysis_section" where
  "fallback_section raw_text =
     \<lparr>title = py ''Analysis'', icon = [128203], body = strip raw_text\<rparr>"

definition parse_analysis_sections :: "unicode_lower \<Rightarrow> pystr \<Rightarrow> analysis_section list" where
  "parse_analysis_sections U raw_text =
     (let secs = flush_last U (foldl (parse_line U) initial_state (split_nl raw_text))
      in if secs = [] then [fallback_section raw_text] else secs)"

section \<open>The specification's wording of the heading pattern\<close>

text \<open>
  The specification describes a heading as a line whose trimmed form starts with the
  marker \<open>##\<close> followed by at least one white-space character and then the heading
  text. \<open>heading_pattern\<close> and \<open>heading_text\<close> say that directly, without the matcher;
  \<open>heading_title\<close> is the captured text trimmed, freed of trailing \<open>#\<close> and trimmed again.
  They are compared with \<open>heading_match\<close> in \<open>heading_match_iff\<close> and
  \<open>heading_match_text\<close>.
\<close>

definition heading_pattern :: "pystr \<Rightarrow> bool" where
  "heading_pattern line =
     (case strip line of a # b # c # r \<Rightarrow> a = 35 \<and> b = 35 \<and> isspace c | _ \<Rightarrow> False)"

definition heading_text :: "pystr \<Rightarrow> pystr" where
  "heading_text line = dropWhile isspace (drop 2 (strip line))"

definition heading_title :: "pystr \<Rightarrow> pystr" where
  "heading_title line = strip (rstrip_hash (strip (heading_text line)))"

text \<open>A string that \<open>strip\<close> leaves alone: empty, or with no white space at either end.\<close>

definition stripped :: "pystr \<Rightarrow> bool" where
  "stripped t \<longleftrightarrow> (t = [] \<or> (\<not> isspace (hd t) \<and> \<not> isspace (last t)))"

text \<open>
  The specification's wording of the icon choice: a key is a case-insensitive substring
  of the title when its lower-case form occurs in the lower-case title, and the icon is
  the glyph of the first such key of the table, or the generic glyph.
\<close>

definition case_insensitive_substring :: "unicode_lower \<Rightarrow> pystr \<Rightarrow> pystr \<Rightarrow> bool" where
  "case_insensitive_substring U key ttl = str_contains (lower U key) (lower U ttl)"

definition first_match_icon :: "unicode_lower \<Rightarrow> pystr \<Rightarrow> pystr" where
  "first_match_icon U ttl =
     (case find (\<lambda>(key, glyph). case_insensitive_substring U key ttl) SECTION_ICONS of
        Some (key, glyph) \<Rightarrow> glyph
      | None \<Rightarrow> [128204])"

section \<open>Exceptions\<close>

text \<open>
  The handler tells three kinds of exception apart: a \<open>ValueError\<close>, a \<open>RuntimeError\<close>
  and anything else. Each carries the text that \<open>str()\<close> gives for it.
\<close>

datatype error = ValueError pystr | RuntimeError pystr | OtherException pystr

section \<open>PDF text extraction\<close>

text \<open>
  PyPDF2 is outside this program. \<open>PdfReader(BytesIO(pdf_bytes))\<close> either raises or
  yields the pages; \<open>page.extract_text()\<close> either raises or returns a string, or \<open>None\<close>.
  The library is the parameter \<open>lib\<close>: for the bytes of a document, the exception of the
  reader, or for each page in document order the exception or the text of that page.
\<close>

type_synonym pdf_library = "nat list \<Rightarrow> error + (error + pystr option) list"

text \<open>\<open>"\n\n".join(ls)\<close>\<close>

fun join_blank :: "pystr list \<Rightarrow> pystr" where
  "join_blank [] = []"
| "join_blank [l] = l"
| "join_blank (l # ls) = l @ [10, 10] @ join_blank ls"

text \<open>The truth value of an optional string (\<open>if text:\<close>), and the string it stands for.\<close>

definition truthy :: "pystr option \<Rightarrow> bool" where
  "truthy text = (case text of None \<Rightarrow> False | Some t \<Rightarrow> t \<noteq> [])"

definition text_of :: "pystr option \<Rightarrow> pystr" where
  "text_of text = (case text of None \<Rightarrow> [] | Some t \<Rightarrow> t)"

text \<open>
  The loop over the pages: a page with text appends its trimmed text to \<open>pages_text\<close>,
  a page without text is passed over, and an exception of the library ends the loop.
\<close>

fun extract_pages :: "(error + pystr option) list \<Rightarrow> pystr list \<Rightarrow> error + pystr list" where
  "extract_pages [] pages_text = Inr pages_text"
| "extract_pages (Inl e # pages) pages_text = Inl e"
| "extract_pages (Inr text # pages) pages_text =
     extract_pages pages
       (if truthy text then pages_text @ [strip (text_of text)] else pages_text)"

definition no_text_message :: pystr where
  "no_text_message =
     py ''Could not extract any text from the PDF. '' @
     py ''The file may be image-based or encrypted.''"

definition extract_text_from_pdf :: "pdf_library \<Rightarrow> nat list \<Rightarrow> error + pystr" where
  "extract_text_from_pdf lib pdf_bytes =
     (case lib pdf_bytes of
        Inl e \<Rightarrow> Inl e
      | Inr pages \<Rightarrow>
          (case extract_pages pages [] of
             Inl e \<Rightarrow> Inl e
           | Inr pages_text \<Rightarrow>
               (let full_text = join_blank pages_text
                in if strip full_text = [] then Inl (ValueError no_text_message)
                   else Inr full_text)))"

section \<open>The analysis client\<close>

text \<open>
  \<open>os.environ\<close> is a map from names to values. The Groq client is outside this program:
  \<open>construct\<close> is the exception that \<open>Groq(api_key=...)\<close> raises, if any, and \<open>complete\<close>
  is the outcome of \<open>client.chat.completions.create(...).choices[0].message.content\<close>
  for a key and a request. What the program does to the service is recorded as a list
  of events, oldest first. The temperature, a floating-point constant, is kept as the
  literal of the source.
\<close>

type_synonym environ = "pystr \<rightharpoonup> pystr"

record chat_request =
  model :: pystr
  system_content :: pystr
  user_content :: pystr
  temperature :: pystr
  max_tokens :: nat

datatype api_event = Client_constructed pystr | Completion_requested chat_request

record groq_service =
  construct :: "pystr \<Rightarrow> error option"
  complete :: "pystr \<Rightarrow> chat_request \<Rightarrow> error + pystr"

definition missing_key_message :: pystr where
  "missing_key_message =
     py ''GROQ_API_KEY environment variable is not set. '' @
     py ''Please set it before running the application.''"

text \<open>The system prompt; the dash in it is the code point 8212.\<close>

definition system_prompt :: "pystr \<Rightarrow> pystr" where
  "system_prompt job_description =
     (let p1 =
        py ''You are an expert career coach, ATS (Applicant Tracking System) specialist, '' @
        py ''and professional resume reviewer.  Analyse the resume provided and return '' @
        py ''a detailed, actionable report using the EXACT section headings below.\<newline>\<newline>'' @
        py ''## Key Strengths\<newline>'' @
        py ''List the candidate's most compelling strengths, achievements, and skills.\<newline>\<newline>'' @
        py ''## Skill Gaps\<newline>'' @
        py ''Identify missing or weak skills relative to modern industry expectations'';
      p2 = (if strip job_description \<noteq> [] then p1 @ py '' and the provided job description''
            else p1);
      p3 = p2 @
        py ''.\<newline>\<newline>'' @
        py ''## ATS Optimisation Suggestions\<newline>'' @
        py ''Provide concrete tips to improve ATS compatibility '' @ [8212] @ py '' keyword usage, '' @
        py ''formatting, section ordering, and quantifiable achievements.\<newline>\<newline>'';
      p4 = (if strip job_description \<noteq> [] then p3 @
              py ''## Match Percentage\<newline>'' @
              py ''Estimate how well the resume matches the job description as a '' @
              py ''percentage (0-100%).  Briefly justify the score.\<newline>\<newline>''
            else p3)
      in p4 @
        py ''## Overall Summary\<newline>'' @
        py ''Wrap up with a concise overall assessment and top three recommended '' @
        py ''next steps for the candidate.\<newline>\<newline>'' @
        py ''IMPORTANT: Use the exact section headings listed above (prefixed with ##). '' @
        py ''Use bullet points for lists.  Be specific, not generic.'')"

definition user_message :: "pystr \<Rightarrow> pystr \<Rightarrow> pystr" where
  "user_message resume_text job_description =
     (let m = py ''### RESUME\<newline>\<newline>'' @ resume_text
      in if strip job_description \<noteq> []
         then m @ py ''\<newline>\<newline>### JOB DESCRIPTION\<newline>\<newline>'' @ job_description
         else m)"

definition analyse_resume ::
  "environ \<Rightarrow> groq_service \<Rightarrow> pystr \<Rightarrow> pystr \<Rightarrow> api_event list \<Rightarrow>
   (error + pystr) \<times> api_event list" where
  "analyse_resume env groq resume_text job_description log =
     (let api_key = env (py ''GROQ_API_KEY'') in
      if \<not> truthy api_key then (Inl (RuntimeError missing_key_message), log)
      else
        (let key = text_of api_key;
             log1 = log @ [Client_constructed key]
         in case construct groq key of
              Some e \<Rightarrow> (Inl e, log1)
            | None \<Rightarrow>
                (let req = \<lparr>model = py ''llama-3.1-8b-instant'',
                            system_content = system_prompt job_description,
                            user_content = user_message resume_text job_description,
                            temperature = py ''0.4'',
                            max_tokens = 2048\<rparr>
                 in (complete groq key req, log1 @ [Completion_requested req]))))"

section \<open>The request handler\<close>

text \<open>
  \<open>filename.rsplit(".", 1)[1]\<close> of a file name that contains a dot: what follows the
  last dot (code point 46).
\<close>

definition after_last_dot :: "pystr \<Rightarrow> pystr" where
  "after_last_dot filename = rev (takeWhile (\<lambda>c. c \<noteq> 46) (rev filename))"

definition allowed_file :: "unicode_lower \<Rightarrow> pystr \<Rightarrow> bool" where
  "allowed_file U filename \<longleftrightarrow>
     46 \<in> set filename \<and> lower U (after_last_dot filename) \<in> {py ''pdf''}"

text \<open>
  The upload as the handler reads it: the file part \<open>resume\<close> (name and content) if
  there is one, and the form field \<open>job_description\<close> if there is one. The handler
  answers with the form, carrying either an error text or the sections.
\<close>

record upload_request =
  resume_file :: "(pystr \<times> nat list) option"
  job_description_field :: "pystr option"

datatype page = Form_with_error pystr | Form_with_analysis "analysis_section list"

text \<open>The three \<open>except\<close> clauses of the handler.\<close>

fun error_page :: "error \<Rightarrow> page" where
  "error_page (ValueError m) = Form_with_error m"
| "error_page (RuntimeError m) = Form_with_error m"
| "error_page (OtherException m) =
     Form_with_error (py ''An unexpected error occurred: '' @ m @ py ''. Please try again.'')"

definition analyse ::
  "environ \<Rightarrow> pdf_library \<Rightarrow> groq_service \<Rightarrow> unicode_lower \<Rightarrow> upload_request \<Rightarrow>
   api_event list \<Rightarrow> page \<times> api_event list" where
  "analyse env lib groq U req log =
     (case resume_file req of
        None \<Rightarrow> (Form_with_error (py ''No file was uploaded. Please select a PDF resume.''), log)
      | Some (filename, content) \<Rightarrow>
          if filename = []
          then (Form_with_error (py ''No file selected. Please choose a PDF file.''), log)
          else if \<not> allowed_file U filename
          then (Form_with_error (py ''Invalid file type. Only PDF files are accepted.''), log)
          else
            (case extract_text_from_pdf lib content of
               Inl e \<Rightarrow> (error_page e, log)
             | Inr resume_text \<Rightarrow>
                 (let job_description = strip (text_of (job_description_field req))
                  in case analyse_resume env groq resume_text job_description log of
                       (Inl e, log') \<Rightarrow> (error_page e, log')
                     | (Inr raw_analysis, log') \<Rightarrow>
                         (Form_with_analysis (parse_analysis_sections U raw_analysis), log'))))"

section \<open>Lines, joining and trimming\<close>

lemmas eval_defs = py_def parse_analysis_sections_def parse_line_def flush_last_def initial_state_def
      build_section_def strip_def rstrip_def lstrip_def rstrip_hash_def isspace_def dot_plus_def
      SECTION_ICONS_def lower_def ascii_lower_def fallback_section_def heading_pattern_def
      heading_text_def heading_title_def

lemma split_nl_not_Nil: "split_nl s \<noteq> []"
  by (induction s) (auto split: list.splits)

lemma split_nl_no_newline: "l \<in> set (split_nl s) \<Longrightarrow> 10 \<notin> set l"
  by (induction s arbitrary: l) (auto split: list.splits if_splits)

lemma split_nl_newline_free: "\<forall>l\<in>set (split_nl s). 10 \<notin> set l"
  using split_nl_no_newline by blast

lemma join_nl_Cons: "ls \<noteq> [] \<Longrightarrow> join_nl (l # ls) = l @ 10 # join_nl ls"
  by (cases ls) auto

lemma join_nl_Cons_Cons: "join_nl ((a # l) # ls) = a # join_nl (l # ls)"
  by (cases ls) auto

text \<open>Splitting at the line feeds loses nothing: joining the lines gives the text back.\<close>

lemma join_split_nl: "join_nl (split_nl s) = s"
proof (induction s)
  case Nil
  show ?case by simp
next
  case (Cons c cs)
  show ?case
  proof (cases "c = 10")
    case True
    with Cons show ?thesis by (simp add: join_nl_Cons split_nl_not_Nil)
  next
    case False
    obtain l ls where "split_nl cs = l # ls"
      using split_nl_not_Nil by (cases "split_nl cs") auto
    with Cons False show ?thesis by (simp add: join_nl_Cons_Cons)
  qed
qed

lemma rstrip_Nil_iff: "rstrip s = [] \<longleftrightarrow> (\<forall>c\<in>set s. isspace c)"
  by (auto simp: rstrip_def)

lemma last_rstrip: "rstrip s \<noteq> [] \<Longrightarrow> \<not> isspace (last (rstrip s))"
  unfolding rstrip_def
  by (metis (mono_tags, lifting) hd_dropWhile last_rev rev_is_Nil_conv)

lemma rstrip_append: "rstrip (a @ b) = (if rstrip b = [] then rstrip a else a @ rstrip b)"
  by (auto simp: rstrip_def dropWhile_append)

lemma hd_rstrip: "rstrip s \<noteq> [] \<Longrightarrow> hd (rstrip s) = hd s"
proof (cases s)
  case Nil then show ?thesis by (simp add: rstrip_def)
next
  case (Cons c cs)
  assume "rstrip s \<noteq> []"
  with Cons show ?thesis
    using rstrip_append[of "[c]" cs] by (auto simp: rstrip_def split: if_splits)
qed

lemma stripped_strip: "stripped (strip s)"
proof (cases "strip s = []")
  case True then show ?thesis by (simp add: stripped_def)
next
  case False
  then have ne: "rstrip (lstrip s) \<noteq> []" by (simp add: strip_def)
  then have "lstrip s \<noteq> []" by (auto simp: rstrip_def)
  then have "\<not> isspace (hd (lstrip s))" unfolding lstrip_def by (rule hd_dropWhile)
  with ne show ?thesis
    by (simp add: stripped_def strip_def hd_rstrip last_rstrip)
qed

lemma strip_Nil_iff: "strip s = [] \<longleftrightarrow> (\<forall>c\<in>set s. isspace c)"
proof
  assume "strip s = []"
  then have "\<forall>c\<in>set (lstrip s). isspace c" by (simp add: strip_def rstrip_Nil_iff)
  moreover have "s = takeWhile isspace s @ lstrip s" by (simp add: lstrip_def)
  then have "set s = set (takeWhile isspace s) \<union> set (lstrip s)" by (metis set_append)
  ultimately show "\<forall>c\<in>set s. isspace c" by (auto dest: set_takeWhileD)
next
  assume "\<forall>c\<in>set s. isspace c"
  then have "lstrip s = []" by (simp add: lstrip_def)
  then show "strip s = []" by (simp add: strip_def rstrip_def)
qed

lemma set_strip_subset: "set (strip s) \<subseteq> set s"
  by (auto simp: strip_def rstrip_def lstrip_def dest!: set_dropWhileD)

lemma strip_strip_Nil_iff: "strip (strip t) = [] \<longleftrightarrow> strip t = []"
proof
  assume "strip (strip t) = []"
  then have a: "\<forall>c\<in>set (strip t). isspace c" by (simp add: strip_Nil_iff)
  show "strip t = []"
  proof (rule ccontr)
    assume ne: "strip t \<noteq> []"
    have "stripped (strip t)" by (rule stripped_strip)
    with ne have "\<not> isspace (hd (strip t))" by (simp add: stripped_def)
    with a ne show False by (metis hd_in_set)
  qed
next
  assume "strip t = []"
  then have "strip (strip t) = strip []" by simp
  also have "strip [] = []" by (simp add: strip_def rstrip_def lstrip_def)
  finally show "strip (strip t) = []" .
qed

text \<open>\<open>str_contains\<close> is the substring relation.\<close>

lemma str_contains_sublist: "str_contains a b \<longleftrightarrow> sublist a b"
proof (induction b)
  case Nil
  show ?case by (cases a) simp_all
next
  case (Cons y ys)
  then show ?case by (cases a) (simp_all add: sublist_Cons_right)
qed

section \<open>The matcher against the specification's heading pattern\<close>

text \<open>
  Four runs of the matcher: the greedy white space gives a character back when nothing
  follows it, \<open>.\<close> stops at a line feed, a vertical tab counts as white space, and a
  marker followed by white space alone is no heading.
\<close>

lemma heading_match_examples:
  "heading_match [35, 35, 32, 32, 10] = Some [32]"
  "heading_match (py ''## a'' @ [10] @ py ''b'') = Some (py ''a'')"
  "heading_match [35, 35, 11, 97] = Some [97]"
  "heading_match (py ''## '') = None"
  by (simp_all add: py_def isspace_def dot_plus_def)

lemma ws_plus_then_Some_D: "ws_plus_then r = Some g \<Longrightarrow> r \<noteq> [] \<and> isspace (hd r)"
  by (cases r) (auto split: if_splits)

lemma ws_plus_then_stripped:
  "r \<noteq> [] \<Longrightarrow> isspace (hd r) \<Longrightarrow> \<not> isspace (last r) \<Longrightarrow>
   ws_plus_then r = Some (takeWhile (\<lambda>c. c \<noteq> 10) (dropWhile isspace r))"
proof (induction r)
  case Nil
  then show ?case by simp
next
  case (Cons c r)
  from Cons.prems have c: "isspace c" by simp
  with Cons.prems have ne: "r \<noteq> []" by auto
  with Cons.prems have lst: "\<not> isspace (last r)" by simp
  show ?case
  proof (cases "isspace (hd r)")
    case True
    with Cons.IH ne lst c show ?thesis by simp
  next
    case False
    from ne obtain d r' where r: "r = d # r'" by (cases r) auto
    with False have d: "\<not> isspace d" by simp
    then have "d \<noteq> 10" by (auto simp: isspace_def)
    with d r c show ?thesis by (simp add: dot_plus_def)
  qed
qed

text \<open>On a trimmed line the matcher succeeds exactly on the specification's pattern.\<close>

lemma heading_match_iff:
  "heading_match (strip line) \<noteq> None \<longleftrightarrow> heading_pattern line"
proof
  assume "heading_match (strip line) \<noteq> None"
  then obtain g where g: "heading_match (strip line) = Some g" by auto
  then obtain a b r where t: "strip line = a # b # r"
    by (cases "strip line" rule: heading_match.cases) auto
  with g have "a = 35" "b = 35" "ws_plus_then r = Some g" by (auto split: if_splits)
  with t ws_plus_then_Some_D[of r g] show "heading_pattern line"
    by (cases r) (auto simp: heading_pattern_def)
next
  assume "heading_pattern line"
  then obtain c r where t: "strip line = 35 # 35 # c # r" and c: "isspace c"
    by (auto simp: heading_pattern_def split: list.splits)
  have "stripped (strip line)" by (rule stripped_strip)
  with t have "\<not> isspace (last (c # r))" by (simp add: stripped_def)
  with c have "ws_plus_then (c # r) \<noteq> None"
    using ws_plus_then_stripped[of "c # r"] by simp
  with t show "heading_match (strip line) \<noteq> None" by simp
qed

text \<open>On a line without line feed the captured group is the specification's heading text.\<close>

lemma heading_match_text:
  assumes "heading_pattern line" and "10 \<notin> set line"
  shows "heading_match (strip line) = Some (heading_text line)"
proof -
  from assms(1) obtain c r where t: "strip line = 35 # 35 # c # r" and c: "isspace c"
    by (auto simp: heading_pattern_def split: list.splits)
  have "stripped (strip line)" by (rule stripped_strip)
  with t have "\<not> isspace (last (c # r))" by (simp add: stripped_def)
  with c have m: "ws_plus_then (c # r) = Some (takeWhile (\<lambda>c. c \<noteq> 10) (dropWhile isspace (c # r)))"
    using ws_plus_then_stripped[of "c # r"] by simp
  have "set (strip line) \<subseteq> set line"
    by (auto simp: strip_def rstrip_def lstrip_def dest!: set_dropWhileD)
  with assms(2) t have "10 \<notin> set (dropWhile isspace (c # r))"
    by (auto dest!: set_dropWhileD)
  then have "takeWhile (\<lambda>c. c \<noteq> 10) (dropWhile isspace (c # r)) = dropWhile isspace (c # r)"
    by (intro takeWhile_eq_all_conv[THEN iffD2]) auto
  with m t show ?thesis by (simp add: heading_text_def)
qed

section \<open>The loop of the parser\<close>

lemma parse_line_body:
  "\<not> heading_pattern l \<Longrightarrow>
   parse_line U st l = st\<lparr>current_body_lines := current_body_lines st @ [l]\<rparr>"
  using heading_match_iff[of l] by (simp add: parse_line_def)

lemma parse_line_heading:
  assumes "heading_pattern h" and "10 \<notin> set h"
  shows "parse_line U st h =
     (case current_title st of
        Some t \<Rightarrow> st\<lparr>sections := sections st @ [build_section U t (current_body_lines st)],
                      current_body_lines := [], current_title := Some (heading_title h)\<rparr>
      | None \<Rightarrow> st\<lparr>current_title := Some (heading_title h)\<rparr>)"
  using heading_match_text[OF assms]
  by (simp add: parse_line_def heading_title_def split: option.splits)

lemma foldl_body_lines:
  "\<forall>l\<in>set ls. \<not> heading_pattern l \<Longrightarrow>
   foldl (parse_line U) st ls = st\<lparr>current_body_lines := current_body_lines st @ ls\<rparr>"
  by (induction ls arbitrary: st) (simp_all add: parse_line_body)

lemma flush_last_parse_line:
  "\<exists>ext. sections (parse_line U st l) = sections st @ ext"
  by (simp add: parse_line_def Let_def split: option.splits)

lemma flush_last_extends:
  "\<exists>ext. flush_last U (foldl (parse_line U) st ls) = sections st @ ext"
proof (induction ls arbitrary: st)
  case Nil
  show ?case by (simp add: flush_last_def split: option.splits)
next
  case (Cons l ls)
  obtain x where x: "sections (parse_line U st l) = sections st @ x"
    using flush_last_parse_line by blast
  obtain ext where "flush_last U (foldl (parse_line U) (parse_line U st l) ls)
      = sections (parse_line U st l) @ ext"
    using Cons.IH by blast
  with x show ?case by simp
qed

lemma titles_fold:
  "\<forall>l\<in>set ls. 10 \<notin> set l \<Longrightarrow>
   map title (flush_last U (foldl (parse_line U) st ls)) =
   map title (flush_last U st) @ map heading_title (filter heading_pattern ls)"
proof (induction ls arbitrary: st)
  case Nil
  show ?case by simp
next
  case (Cons l ls)
  then have IH: "map title (flush_last U (foldl (parse_line U) (parse_line U st l) ls)) =
     map title (flush_last U (parse_line U st l)) @ map heading_title (filter heading_pattern ls)"
    by simp
  from Cons.prems have nl: "10 \<notin> set l" by simp
  show ?case
  proof (cases "heading_pattern l")
    case True
    then have "map title (flush_last U (parse_line U st l)) =
        map title (flush_last U st) @ [heading_title l]"
      by (simp add: parse_line_heading[OF True nl] flush_last_def build_section_def
          split: option.splits)
    with IH True show ?thesis by simp
  next
    case False
    then have "map title (flush_last U (parse_line U st l)) = map title (flush_last U st)"
      by (simp add: parse_line_body flush_last_def build_section_def split: option.splits)
    with IH False show ?thesis by simp
  qed
qed

lemma current_title_kept:
  "current_title st \<noteq> None \<Longrightarrow> current_title (foldl (parse_line U) st ls) \<noteq> None"
  by (induction ls arbitrary: st) (auto simp: parse_line_def Let_def split: option.splits)

lemma current_title_set:
  "\<exists>l\<in>set ls. heading_pattern l \<Longrightarrow> current_title (foldl (parse_line U) st ls) \<noteq> None"
proof (induction ls arbitrary: st)
  case Nil
  then show ?case by simp
next
  case (Cons l ls)
  show ?case
  proof (cases "heading_pattern l")
    case True
    then have "heading_match (strip l) \<noteq> None" using heading_match_iff[of l] by blast
    then have "current_title (parse_line U st l) \<noteq> None"
      by (auto simp: parse_line_def Let_def)
    then show ?thesis by (simp add: current_title_kept)
  next
    case False
    with Cons show ?thesis by simp
  qed
qed

lemma flush_after_segment:
  assumes "current_title st = Some t"
    and "ls = [] \<or> heading_pattern (hd ls)"
  shows "\<exists>ext. flush_last U (foldl (parse_line U) st ls) =
           sections st @ build_section U t (current_body_lines st) # ext"
proof (cases ls)
  case Nil
  with assms(1) show ?thesis by (simp add: flush_last_def)
next
  case (Cons h rest)
  with assms(2) have "heading_pattern h" by simp
  then have "heading_match (strip h) \<noteq> None" using heading_match_iff[of h] by blast
  with assms(1) have s: "sections (parse_line U st h) =
      sections st @ [build_section U t (current_body_lines st)]"
    by (auto simp: parse_line_def Let_def)
  obtain ext where "flush_last U (foldl (parse_line U) (parse_line U st h) rest) =
      sections (parse_line U st h) @ ext"
    using flush_last_extends by blast
  with s Cons show ?thesis by simp
qed

lemma flush_initial: "flush_last U initial_state = []"
  by (simp add: flush_last_def initial_state_def)

lemma parse_titles:
  "map title (flush_last U (foldl (parse_line U) initial_state (split_nl s))) =
   map heading_title (filter heading_pattern (split_nl s))"
  using titles_fold[where ls = "split_nl s" and U = U and st = initial_state]
  by (simp add: flush_initial split_nl_newline_free)

lemma parse_with_heading:
  assumes "\<exists>l\<in>set (split_nl s). heading_pattern l"
  shows "parse_analysis_sections U s =
         flush_last U (foldl (parse_line U) initial_state (split_nl s))"
proof -
  from assms have "filter heading_pattern (split_nl s) \<noteq> []"
    by (simp add: filter_empty_conv)
  then have "map heading_title (filter heading_pattern (split_nl s)) \<noteq> []" by simp
  then have "map title (flush_last U (foldl (parse_line U) initial_state (split_nl s))) \<noteq> []"
    unfolding parse_titles .
  then have "flush_last U (foldl (parse_line U) initial_state (split_nl s)) \<noteq> []"
    by auto
  then show ?thesis by (simp add: parse_analysis_sections_def Let_def)
qed

lemma state_before_first_heading:
  assumes "\<forall>l\<in>set pre. \<not> heading_pattern l"
  shows "foldl (parse_line U) initial_state pre =
         \<lparr>sections = [], current_title = None, current_body_lines = pre\<rparr>"
  using foldl_body_lines[OF assms, of U initial_state] by (simp add: initial_state_def)

text \<open>
  The section of a heading line \<open>h\<close>: when the lines are \<open>before\<close>, \<open>h\<close>, a run \<open>seg\<close>
  without heading, and either nothing or a heading next, the result holds the section
  built from the title of \<open>h\<close> at the position that counts the headings of \<open>before\<close>.
  Its body lines are \<open>seg\<close>, preceded by \<open>before\<close> when \<open>h\<close> is the first heading.
\<close>

lemma section_at_heading:
  assumes ls: "split_nl s = before @ h # seg @ after"
    and h: "heading_pattern h"
    and seg: "\<forall>l\<in>set seg. \<not> heading_pattern l"
    and after: "after = [] \<or> heading_pattern (hd after)"
  shows "\<exists>front back. parse_analysis_sections U s =
            front @ build_section U (heading_title h)
              ((if \<exists>l\<in>set before. heading_pattern l then [] else before) @ seg) # back \<and>
            length front = length (filter heading_pattern before)"
proof -
  define st1 where "st1 = foldl (parse_line U) initial_state before"
  define st2 where "st2 = parse_line U st1 h"
  define st3 where "st3 = foldl (parse_line U) st2 seg"
  have nl: "\<forall>l\<in>set (split_nl s). 10 \<notin> set l" by (rule split_nl_newline_free)
  with ls have nlb: "\<forall>l\<in>set before. 10 \<notin> set l" and nlh: "10 \<notin> set h" by auto
  have len1: "length (flush_last U st1) = length (filter heading_pattern before)"
  proof -
    have "length (map title (flush_last U st1)) =
          length (map heading_title (filter heading_pattern before))"
      unfolding st1_def titles_fold[OF nlb] by (simp add: flush_initial)
    then show ?thesis by simp
  qed
  have body1: "current_body_lines st2 =
      (if \<exists>l\<in>set before. heading_pattern l then [] else before)"
  proof (cases "\<exists>l\<in>set before. heading_pattern l")
    case True
    then have "current_title st1 \<noteq> None" unfolding st1_def by (rule current_title_set)
    with True show ?thesis
      by (auto simp: st2_def parse_line_heading[OF h nlh])
  next
    case False
    then have "st1 = \<lparr>sections = [], current_title = None, current_body_lines = before\<rparr>"
      unfolding st1_def by (intro state_before_first_heading) simp
    with False show ?thesis by (simp add: st2_def parse_line_heading[OF h nlh])
  qed
  have sec2: "sections st2 = flush_last U st1"
    by (simp add: st2_def parse_line_heading[OF h nlh] flush_last_def split: option.splits)
  have t2: "current_title st2 = Some (heading_title h)"
    by (simp add: st2_def parse_line_heading[OF h nlh] split: option.splits)
  have st3: "st3 = st2\<lparr>current_body_lines := current_body_lines st2 @ seg\<rparr>"
    unfolding st3_def using seg by (rule foldl_body_lines)
  have t3: "current_title st3 = Some (heading_title h)" using t2 st3 by simp
  have sec3: "sections st3 = flush_last U st1" using st3 sec2 by simp
  have body3: "current_body_lines st3 =
      (if \<exists>l\<in>set before. heading_pattern l then [] else before) @ seg"
    using st3 body1 by simp
  have whole: "foldl (parse_line U) initial_state (split_nl s) = foldl (parse_line U) st3 after"
    by (simp add: ls st1_def st2_def st3_def)
  obtain ext where "flush_last U (foldl (parse_line U) st3 after) =
      sections st3 @ build_section U (heading_title h) (current_body_lines st3) # ext"
    using flush_after_segment[OF t3 after] by blast
  then have fin: "flush_last U (foldl (parse_line U) initial_state (split_nl s)) =
      flush_last U st1 @ build_section U (heading_title h)
        ((if \<exists>l\<in>set before. heading_pattern l then [] else before) @ seg) # ext"
    by (simp only: whole sec3 body3)
  have "\<exists>l\<in>set (split_nl s). heading_pattern l" using ls h by auto
  from parse_with_heading[OF this] fin len1 show ?thesis by auto
qed

lemma icon_loop_find:
  "icon_loop U ttl ic items =
     (case find (\<lambda>(key, glyph). case_insensitive_substring U key ttl) items of
        Some (key, glyph) \<Rightarrow> glyph
      | None \<Rightarrow> ic)"
  by (induction items) (auto simp: case_insensitive_substring_def)

section \<open>Lemmas on the extraction and on the client\<close>

lemma set_join_blank: "set (join_blank ls) \<subseteq> \<Union>(set ` set ls) \<union> {10}"
  by (induction ls rule: join_blank.induct) auto

lemma set_join_blank_elem: "l \<in> set ls \<Longrightarrow> set l \<subseteq> set (join_blank ls)"
  by (induction ls rule: join_blank.induct) auto

lemma join_blank_blank_iff:
  "strip (join_blank ls) = [] \<longleftrightarrow> (\<forall>l\<in>set ls. \<forall>c\<in>set l. isspace c)"
proof
  assume "strip (join_blank ls) = []"
  then have "\<forall>c\<in>set (join_blank ls). isspace c" by (simp add: strip_Nil_iff)
  then show "\<forall>l\<in>set ls. \<forall>c\<in>set l. isspace c"
    using set_join_blank_elem by blast
next
  assume a: "\<forall>l\<in>set ls. \<forall>c\<in>set l. isspace c"
  have "isspace 10" by (simp add: isspace_def)
  with a have "\<forall>c\<in>set (join_blank ls). isspace c"
    using set_join_blank[of ls] by auto
  then show "strip (join_blank ls) = []" by (simp add: strip_Nil_iff)
qed

lemma extract_pages_ok:
  "extract_pages (map Inr texts) acc =
     Inr (acc @ map strip (filter (\<lambda>t. t \<noteq> []) (map text_of texts)))"
proof (induction texts arbitrary: acc)
  case Nil
  show ?case by simp
next
  case (Cons t ts)
  show ?case by (cases t) (simp_all add: Cons.IH truthy_def text_of_def)
qed

lemma kept_pages_blank_iff:
  "(\<forall>l\<in>set (map strip (filter (\<lambda>t. t \<noteq> []) (map text_of texts))). \<forall>c\<in>set l. isspace c)
   \<longleftrightarrow> strip (concat (map text_of texts)) = []"
proof -
  have "(\<forall>l\<in>set (map strip (filter (\<lambda>t. t \<noteq> []) (map text_of texts))). \<forall>c\<in>set l. isspace c)
      \<longleftrightarrow> (\<forall>t\<in>set (map text_of texts). t \<noteq> [] \<longrightarrow> strip (strip t) = [])"
    by (auto simp: strip_Nil_iff)
  also have "\<dots> \<longleftrightarrow> (\<forall>t\<in>set (map text_of texts). strip t = [])"
    unfolding strip_strip_Nil_iff by (auto simp: strip_def rstrip_def lstrip_def)
  also have "\<dots> \<longleftrightarrow> strip (concat (map text_of texts)) = []"
    by (auto simp: strip_Nil_iff)
  finally show ?thesis .
qed

text \<open>With a credential the client is constructed: the record of events is not idle.\<close>

lemma analyse_resume_with_key:
  "env (py ''GROQ_API_KEY'') = Some key \<Longrightarrow> key \<noteq> [] \<Longrightarrow>
   \<exists>more. snd (analyse_resume env groq resume_text job_description log) =
     log @ Client_constructed key # more"
  by (simp add: analyse_resume_def truthy_def text_of_def Let_def split: option.splits)

section \<open>Titles and icons of the sections\<close>

text \<open>
  The title taken from a heading line is empty exactly when the heading text is made of
  \<open>#\<close> characters only; in every other case it keeps a character.
\<close>

lemma hd_rev_dropWhile:
  "rev (dropWhile P (rev s)) \<noteq> [] \<Longrightarrow> hd (rev (dropWhile P (rev s))) = hd s"
proof (cases s)
  case Nil
  then show ?thesis by simp
next
  case (Cons c cs)
  assume "rev (dropWhile P (rev s)) \<noteq> []"
  with Cons show ?thesis by (auto simp: dropWhile_append split: if_splits)
qed

lemma strip_stripped: "stripped t \<Longrightarrow> strip t = t"
proof (cases t rule: rev_cases)
  case Nil
  then show ?thesis by (simp add: strip_def rstrip_def lstrip_def)
next
  case (snoc ys y)
  assume "stripped t"
  with snoc have h: "\<not> isspace (hd t)" and l: "\<not> isspace y" by (simp_all add: stripped_def)
  from snoc have "t \<noteq> []" by simp
  with h have "lstrip t = t" by (cases t) (simp_all add: lstrip_def)
  with snoc l show ?thesis by (simp add: strip_def rstrip_def)
qed

lemma heading_text_stripped:
  assumes "heading_pattern line"
  shows "heading_text line \<noteq> [] \<and> stripped (heading_text line)"
proof -
  from assms obtain c r where t: "strip line = 35 # 35 # c # r" and c: "isspace c"
    by (auto simp: heading_pattern_def split: list.splits)
  have "stripped (strip line)" by (rule stripped_strip)
  with t have l: "\<not> isspace (last (c # r))" by (simp add: stripped_def)
  then have "\<exists>x\<in>set (c # r). \<not> isspace x" by (metis last_in_set list.distinct(1))
  then have ne: "dropWhile isspace (c # r) \<noteq> []" by (simp only: dropWhile_eq_Nil_conv) blast
  then have "\<not> isspace (hd (dropWhile isspace (c # r)))" by (rule hd_dropWhile)
  moreover have "c # r = takeWhile isspace (c # r) @ dropWhile isspace (c # r)" by simp
  then have "last (c # r) = last (dropWhile isspace (c # r))"
    using ne by (metis last_appendR)
  ultimately show ?thesis using t ne l by (simp add: heading_text_def stripped_def)
qed

lemma heading_title_empty_iff:
  assumes "heading_pattern line"
  shows "heading_title line = [] \<longleftrightarrow> set (heading_text line) \<subseteq> {35}"
proof -
  let ?ht = "heading_text line"
  from heading_text_stripped[OF assms] have ne: "?ht \<noteq> []" and st: "stripped ?ht" by simp_all
  then have hd: "\<not> isspace (hd ?ht)" by (simp add: stripped_def)
  have t: "heading_title line = strip (rstrip_hash ?ht)"
    by (simp add: heading_title_def strip_stripped[OF st])
  show ?thesis
  proof
    assume "heading_title line = []"
    with t have "strip (rstrip_hash ?ht) = []" by simp
    then have a: "\<forall>x\<in>set (rstrip_hash ?ht). isspace x" by (simp only: strip_Nil_iff)
    have "rstrip_hash ?ht = []"
    proof (rule ccontr)
      assume n: "rstrip_hash ?ht \<noteq> []"
      then have "hd (rstrip_hash ?ht) = hd ?ht"
        unfolding rstrip_hash_def by (rule hd_rev_dropWhile)
      with a n hd show False by (metis hd_in_set)
    qed
    then show "set ?ht \<subseteq> {35}" by (auto simp: rstrip_hash_def dropWhile_eq_Nil_conv)
  next
    assume "set ?ht \<subseteq> {35}"
    then have "rstrip_hash ?ht = []" by (auto simp: rstrip_hash_def dropWhile_eq_Nil_conv)
    with t show "heading_title line = []" by (simp add: strip_def rstrip_def lstrip_def)
  qed
qed

text \<open>Every section of a result carries an icon.\<close>

lemma build_section_icon_set: "icon (build_section U ttl body_lines) \<noteq> []"
  by (simp add: build_section_def SECTION_ICONS_def)

lemma icons_set_fold:
  "\<forall>x\<in>set (sections st). icon x \<noteq> [] \<Longrightarrow>
   \<forall>x\<in>set (flush_last U (foldl (parse_line U) st ls)). icon x \<noteq> []"
proof (induction ls arbitrary: st)
  case Nil
  then show ?case by (auto simp: flush_last_def build_section_icon_set split: option.splits)
next
  case (Cons l ls)
  from Cons.prems have "\<forall>x\<in>set (sections (parse_line U st l)). icon x \<noteq> []"
    by (auto simp: parse_line_def Let_def build_section_icon_set split: option.splits)
  then show ?case using Cons.IH by simp
qed

lemma icons_always_set: "\<forall>x\<in>set (parse_analysis_sections U s). icon x \<noteq> []"
proof -
  have "\<forall>x\<in>set (flush_last U (foldl (parse_line U) initial_state (split_nl s))). icon x \<noteq> []"
    by (rule icons_set_fold) (simp add: initial_state_def)
  then show ?thesis
    by (simp add: parse_analysis_sections_def Let_def fallback_section_def)
qed

section \<open>Totality of the parser\<close>

text \<open>
  C1. For every string, the empty one included, \<open>parse_analysis_sections\<close> returns a list of
  sections that is not empty. The parser is a total function into plain lists of
  sections: the source has no \<open>raise\<close> and no partial operation on any path, so the
  model has no error value to return.
\<close>

theorem parse_analysis_sections_nonempty:
  "parse_analysis_sections U s \<noteq> [] \<and> length (parse_analysis_sections U s) \<ge> 1"
  by (simp add: parse_analysis_sections_def Let_def Suc_le_eq)

section \<open>The fallback section\<close>

text \<open>
  C2. If no line of \<open>s\<close> matches the heading pattern, \<open>parse_analysis_sections\<close> returns
  exactly one section, with the title \<open>Analysis\<close>, the clipboard glyph (code point
  128203) and the trimmed \<open>s\<close> as body. For the empty string this is the fallback section
  with an empty body.
\<close>

theorem fallback_when_no_heading:
  "((\<forall>l\<in>set (split_nl s). \<not> heading_pattern l) \<longrightarrow>
      parse_analysis_sections U s =
        [\<lparr>title = py ''Analysis'', icon = [128203], body = strip s\<rparr>]) \<and>
   parse_analysis_sections U [] = [\<lparr>title = py ''Analysis'', icon = [128203], body = []\<rparr>]"
proof (intro conjI impI)
  assume "\<forall>l\<in>set (split_nl s). \<not> heading_pattern l"
  then have "foldl (parse_line U) initial_state (split_nl s) =
      initial_state\<lparr>current_body_lines := current_body_lines initial_state @ split_nl s\<rparr>"
    by (rule foldl_body_lines)
  then have "flush_last U (foldl (parse_line U) initial_state (split_nl s)) = []"
    by (simp add: flush_last_def initial_state_def)
  then show "parse_analysis_sections U s =
      [\<lparr>title = py ''Analysis'', icon = [128203], body = strip s\<rparr>]"
    by (simp add: parse_analysis_sections_def fallback_section_def)
next
  show "parse_analysis_sections U [] = [\<lparr>title = py ''Analysis'', icon = [128203], body = []\<rparr>]"
    by (simp add: parse_analysis_sections_def fallback_section_def parse_line_def
        flush_last_def initial_state_def strip_def rstrip_def lstrip_def)
qed

theorem fallback_when_no_heading_witness:
  "list_all (\<lambda>l. \<not> heading_pattern l) (split_nl (py ''Just some free text with no headings.'')) \<and>
   parse_analysis_sections unchanged_above_ascii (py ''Just some free text with no headings.'') =
     [\<lparr>title = py ''Analysis'', icon = [128203],
       body = py ''Just some free text with no headings.''\<rparr>]"
proof -
  have h: "\<forall>l\<in>set (split_nl (py ''Just some free text with no headings.'')). \<not> heading_pattern l"
    by (simp add: eval_defs)
  have b: "strip (py ''Just some free text with no headings.'') =
      py ''Just some free text with no headings.''"
    by (simp add: eval_defs)
  from fallback_when_no_heading[where U = unchanged_above_ascii, THEN conjunct1, THEN mp, OF h]
  show ?thesis using h unfolding b by (simp only: list_all_iff)
qed

section \<open>Number and order of the sections\<close>

text \<open>
  C3. If some line of \<open>s\<close> matches the heading pattern, the number of sections returned
  is the number of lines of \<open>s\<close> that match it.
\<close>

theorem section_count:
  assumes "\<exists>l\<in>set (split_nl s). heading_pattern l"
  shows "length (parse_analysis_sections U s) = length (filter heading_pattern (split_nl s))"
proof -
  have "length (map title (parse_analysis_sections U s)) =
        length (map heading_title (filter heading_pattern (split_nl s)))"
    unfolding parse_with_heading[OF assms] parse_titles ..
  then show ?thesis by simp
qed

theorem section_count_witness:
  "(\<exists>l\<in>set (split_nl (py ''## Key Strengths\<newline>Good communicator\<newline>\<newline>## Skill Gaps\<newline>No cloud experience\<newline>'')).
      heading_pattern l) \<and>
   length (parse_analysis_sections unchanged_above_ascii
     (py ''## Key Strengths\<newline>Good communicator\<newline>\<newline>## Skill Gaps\<newline>No cloud experience\<newline>'')) = 2"
proof -
  have h: "\<exists>l\<in>set (split_nl (py ''## Key Strengths\<newline>Good communicator\<newline>\<newline>## Skill Gaps\<newline>No cloud experience\<newline>'')).
      heading_pattern l"
    by (simp add: eval_defs)
  have n: "length (filter heading_pattern (split_nl (py ''## Key Strengths\<newline>Good communicator\<newline>\<newline>## Skill Gaps\<newline>No cloud experience\<newline>''))) = 2"
    by (simp add: eval_defs)
  from section_count[OF h, where U = unchanged_above_ascii]
  show ?thesis using h unfolding n by blast
qed

text \<open>
  C4. If some line of \<open>s\<close> matches the heading pattern, the sections come in the order
  of their heading lines: the titles of the sections, in order, are the titles of the
  heading lines of \<open>s\<close>, in order.
\<close>

theorem section_order:
  assumes "\<exists>l\<in>set (split_nl s). heading_pattern l"
  shows "map title (parse_analysis_sections U s) =
         map heading_title (filter heading_pattern (split_nl s))"
  unfolding parse_with_heading[OF assms] by (rule parse_titles)

theorem section_order_witness:
  "(\<exists>l\<in>set (split_nl (py ''## Skill Gaps\<newline>No cloud experience\<newline>## Key Strengths ##\<newline>Good communicator'')).
      heading_pattern l) \<and>
   map title (parse_analysis_sections unchanged_above_ascii
     (py ''## Skill Gaps\<newline>No cloud experience\<newline>## Key Strengths ##\<newline>Good communicator'')) =
     [py ''Skill Gaps'', py ''Key Strengths'']"
proof -
  have h: "\<exists>l\<in>set (split_nl (py ''## Skill Gaps\<newline>No cloud experience\<newline>## Key Strengths ##\<newline>Good communicator'')).
      heading_pattern l"
    by (simp add: eval_defs)
  have n: "map heading_title (filter heading_pattern (split_nl (py ''## Skill Gaps\<newline>No cloud experience\<newline>## Key Strengths ##\<newline>Good communicator''))) =
      [py ''Skill Gaps'', py ''Key Strengths'']"
    by (simp add: eval_defs)
  from section_order[OF h, where U = unchanged_above_ascii]
  show ?thesis using h unfolding n by blast
qed

section \<open>Icons\<close>

text \<open>
  C5. The icon that \<open>build_section\<close> gives a title is the glyph of the first key of
  \<open>SECTION_ICONS\<close>, in the order of the table, that is a case-insensitive substring of the
  title, and the pin glyph (code point 128204) when there is none. The result is a
  function of the title and the table alone. Both spellings of the title
  \<open>ATS Optimisation Suggestions\<close> get the same glyph, code point 127919.
\<close>

theorem icon_is_first_match:
  "icon (build_section U ttl body_lines) = first_match_icon U ttl \<and>
   icon (build_section U (py ''ATS Optimization Suggestions'') body_lines) = [127919] \<and>
   icon (build_section U (py ''ATS Optimisation Suggestions'') body_lines) = [127919]"
proof (intro conjI)
  show "icon (build_section U ttl body_lines) = first_match_icon U ttl"
    by (simp add: build_section_def first_match_icon_def icon_loop_find)
  show "icon (build_section U (py ''ATS Optimization Suggestions'') body_lines) = [127919]"
    by (simp add: build_section_def SECTION_ICONS_def py_def lower_def ascii_lower_def)
  show "icon (build_section U (py ''ATS Optimisation Suggestions'') body_lines) = [127919]"
    by (simp add: build_section_def SECTION_ICONS_def py_def lower_def ascii_lower_def)
qed

section \<open>Bodies\<close>

text \<open>
  C6, as the program has it. Let the lines of \<open>s\<close> be \<open>before\<close>, a heading line \<open>h\<close>, a
  run \<open>seg\<close> of lines without heading, and \<open>after\<close>, which is empty or starts with a
  heading. Then the section at the position that counts the headings of \<open>before\<close> has as
  body the lines of \<open>seg\<close> joined by line feeds and trimmed as a whole, where for the
  first heading the lines of \<open>before\<close> come first. Interior blank lines are kept.
\<close>

theorem section_body_lines:
  assumes "split_nl s = before @ h # seg @ after"
    and "heading_pattern h"
    and "\<forall>l\<in>set seg. \<not> heading_pattern l"
    and "after = [] \<or> heading_pattern (hd after)"
  shows "length (filter heading_pattern before) < length (parse_analysis_sections U s) \<and>
         body (parse_analysis_sections U s ! length (filter heading_pattern before)) =
           strip (join_nl ((if length (filter heading_pattern before) = 0 then before else []) @ seg))"
proof -
  obtain front behind where p: "parse_analysis_sections U s =
            front @ build_section U (heading_title h)
              ((if \<exists>l\<in>set before. heading_pattern l then [] else before) @ seg) # behind"
    and len: "length front = length (filter heading_pattern before)"
    using section_at_heading[OF assms] by blast
  have "(\<exists>l\<in>set before. heading_pattern l) \<longleftrightarrow> length (filter heading_pattern before) \<noteq> 0"
    by (simp add: filter_empty_conv)
  then have b: "(if \<exists>l\<in>set before. heading_pattern l then [] else before) =
      (if length (filter heading_pattern before) = 0 then before else [])"
    by simp
  from p len have "parse_analysis_sections U s ! length (filter heading_pattern before) =
      build_section U (heading_title h)
        ((if \<exists>l\<in>set before. heading_pattern l then [] else before) @ seg)"
    by (metis nth_append_length)
  then have "body (parse_analysis_sections U s ! length (filter heading_pattern before)) =
      strip (join_nl ((if \<exists>l\<in>set before. heading_pattern l then [] else before) @ seg))"
    by (simp add: build_section_def)
  with b p len show ?thesis by simp
qed

theorem section_body_lines_witness:
  "split_nl (py ''## A\<newline>one\<newline>## B\<newline>two\<newline>\<newline>three\<newline>## C'') =
     [py ''## A'', py ''one''] @ py ''## B'' # [py ''two'', [], py ''three''] @ [py ''## C''] \<and>
   heading_pattern (py ''## B'') \<and>
   list_all (\<lambda>l. \<not> heading_pattern l) [py ''two'', [], py ''three''] \<and>
   ([py ''## C''] = [] \<or> heading_pattern (hd [py ''## C''])) \<and>
   body (parse_analysis_sections unchanged_above_ascii
           (py ''## A\<newline>one\<newline>## B\<newline>two\<newline>\<newline>three\<newline>## C'') ! 1) =
     py ''two\<newline>\<newline>three''"
proof -
  have h1: "split_nl (py ''## A\<newline>one\<newline>## B\<newline>two\<newline>\<newline>three\<newline>## C'') =
     [py ''## A'', py ''one''] @ py ''## B'' # [py ''two'', [], py ''three''] @ [py ''## C'']"
    by (simp add: py_def)
  have h2: "heading_pattern (py ''## B'')" by (simp add: eval_defs)
  have h3: "\<forall>l\<in>set [py ''two'', [], py ''three'']. \<not> heading_pattern l"
    by (simp add: eval_defs)
  have h4: "[py ''## C''] = [] \<or> heading_pattern (hd [py ''## C''])" by (simp add: eval_defs)
  have k: "length (filter heading_pattern [py ''## A'', py ''one'']) = 1"
    by (simp add: eval_defs)
  have b: "strip (join_nl ([] @ [py ''two'', [], py ''three''])) = py ''two\<newline>\<newline>three''"
    by (simp add: eval_defs)
  from section_body_lines[OF h1 h2 h3 h4, where U = unchanged_above_ascii]
  have "body (parse_analysis_sections unchanged_above_ascii
           (py ''## A\<newline>one\<newline>## B\<newline>two\<newline>\<newline>three\<newline>## C'') ! 1) =
     py ''two\<newline>\<newline>three''"
    unfolding k using b by simp
  with h1 h2 h3 h4 show ?thesis by (simp only: list_all_iff)
qed

text \<open>
  The body of a first section is not made of the lines after its heading alone: in
  \<open>x\<close>, line feed, \<open>## A\<close> nothing follows the heading, and the body is \<open>x\<close>.
\<close>

theorem section_body_only_following_lines_counterexample:
  "split_nl (py ''x\<newline>## A'') = [py ''x''] @ py ''## A'' # [] @ [] \<and>
   heading_pattern (py ''## A'') \<and>
   body (parse_analysis_sections unchanged_above_ascii (py ''x\<newline>## A'') ! 0) = py ''x'' \<and>
   body (parse_analysis_sections unchanged_above_ascii (py ''x\<newline>## A'') ! 0) \<noteq>
     strip (join_nl [])"
  by (simp add: eval_defs)

section \<open>Titles\<close>

text \<open>
  C7. The claim is that every section has a title that is not empty after trimming.
  The matcher asks for heading text, but \<open>rstrip("#")\<close> can remove all of it: the
  heading line \<open>## #\<close> gives one section whose title is empty.
\<close>

theorem hash_only_heading_gives_empty_title:
  "parse_analysis_sections U (py ''## #'') = [\<lparr>title = [], icon = [128204], body = []\<rparr>] \<and>
   heading_pattern (py ''## #'') \<and>
   strip (title (hd (parse_analysis_sections U (py ''## #'')))) = []"
  by (simp add: eval_defs)

section \<open>Lines before the first heading\<close>

text \<open>
  C8. If the lines of \<open>s\<close> are \<open>pre\<close>, without heading, then a heading line \<open>h\<close>, then
  \<open>rest\<close>, the accumulator of body lines still holds \<open>pre\<close> after the heading has been
  read, and the body of the first section is made of the lines of \<open>pre\<close>, in order and
  unchanged, followed by the lines up to the next heading, joined and trimmed.
\<close>

theorem preamble_kept:
  assumes "split_nl s = pre @ h # rest"
    and "\<forall>l\<in>set pre. \<not> heading_pattern l"
    and "heading_pattern h"
  shows "current_body_lines (foldl (parse_line U) initial_state (pre @ [h])) = pre \<and>
         body (hd (parse_analysis_sections U s)) =
           strip (join_nl (pre @ takeWhile (\<lambda>l. \<not> heading_pattern l) rest))"
proof
  have "10 \<notin> set h" using split_nl_no_newline[of h s] assms(1) by simp
  then show "current_body_lines (foldl (parse_line U) initial_state (pre @ [h])) = pre"
    by (simp add: state_before_first_heading[OF assms(2)] parse_line_heading[OF assms(3)])
next
  let ?seg = "takeWhile (\<lambda>l. \<not> heading_pattern l) rest"
  let ?after = "dropWhile (\<lambda>l. \<not> heading_pattern l) rest"
  have d: "split_nl s = pre @ h # ?seg @ ?after" using assms(1) by simp
  have seg: "\<forall>l\<in>set ?seg. \<not> heading_pattern l" by (auto dest: set_takeWhileD)
  have after: "?after = [] \<or> heading_pattern (hd ?after)"
    using hd_dropWhile[of "\<lambda>l. \<not> heading_pattern l" rest] by blast
  obtain front behind where p: "parse_analysis_sections U s =
            front @ build_section U (heading_title h)
              ((if \<exists>l\<in>set pre. heading_pattern l then [] else pre) @ ?seg) # behind"
    and len: "length front = length (filter heading_pattern pre)"
    using section_at_heading[OF d assms(3) seg after] by blast
  from assms(2) have "filter heading_pattern pre = []" by (simp add: filter_empty_conv)
  with len have "front = []" by simp
  with p assms(2) show "body (hd (parse_analysis_sections U s)) = strip (join_nl (pre @ ?seg))"
    by (simp add: build_section_def)
qed

theorem preamble_kept_witness:
  "split_nl (py ''intro\<newline>more\<newline>## A\<newline>text\<newline>## B'') =
     [py ''intro'', py ''more''] @ py ''## A'' # [py ''text'', py ''## B''] \<and>
   list_all (\<lambda>l. \<not> heading_pattern l) [py ''intro'', py ''more''] \<and>
   heading_pattern (py ''## A'') \<and>
   body (hd (parse_analysis_sections unchanged_above_ascii
               (py ''intro\<newline>more\<newline>## A\<newline>text\<newline>## B''))) =
     py ''intro\<newline>more\<newline>text''"
proof -
  have h1: "split_nl (py ''intro\<newline>more\<newline>## A\<newline>text\<newline>## B'') =
     [py ''intro'', py ''more''] @ py ''## A'' # [py ''text'', py ''## B'']"
    by (simp add: py_def)
  have h2: "\<forall>l\<in>set [py ''intro'', py ''more'']. \<not> heading_pattern l"
    by (simp add: eval_defs)
  have h3: "heading_pattern (py ''## A'')" by (simp add: eval_defs)
  have b: "strip (join_nl ([py ''intro'', py ''more''] @
      takeWhile (\<lambda>l. \<not> heading_pattern l) [py ''text'', py ''## B''])) =
      py ''intro\<newline>more\<newline>text''"
    by (simp add: eval_defs)
  from preamble_kept[OF h1 h2 h3, where U = unchanged_above_ascii, THEN conjunct2]
  have "body (hd (parse_analysis_sections unchanged_above_ascii
               (py ''intro\<newline>more\<newline>## A\<newline>text\<newline>## B''))) =
     py ''intro\<newline>more\<newline>text''"
    unfolding b .
  with h1 h2 h3 show ?thesis by (simp only: list_all_iff)
qed

section \<open>The missing credential\<close>

text \<open>
  C9. If \<open>GROQ_API_KEY\<close> is not set (or set to the empty string), \<open>analyse_resume\<close>
  raises a \<open>RuntimeError\<close> with the fixed message and leaves the record of events as it
  was: no client is constructed and no completion is requested. A request that gets as
  far as the analysis is answered with the form carrying that very message.
\<close>

theorem missing_credential_stops_analysis:
  assumes "env (py ''GROQ_API_KEY'') = None \<or> env (py ''GROQ_API_KEY'') = Some []"
  shows "analyse_resume env groq resume_text job_description log =
           (Inl (RuntimeError missing_key_message), log) \<and>
         (resume_file req = Some (filename, content) \<and> filename \<noteq> [] \<and>
          allowed_file U filename \<and> extract_text_from_pdf lib content = Inr resume_text \<longrightarrow>
            analyse env lib groq U req log = (Form_with_error missing_key_message, log))"
proof -
  from assms have "\<not> truthy (env (py ''GROQ_API_KEY''))" by (auto simp: truthy_def)
  then have a: "\<And>r j. analyse_resume env groq r j log =
      (Inl (RuntimeError missing_key_message), log)"
    by (simp add: analyse_resume_def)
  then show ?thesis by (simp add: analyse_def)
qed

theorem missing_credential_stops_analysis_witness:
  "(Map.empty (py ''GROQ_API_KEY'') = None \<or> Map.empty (py ''GROQ_API_KEY'') = Some []) \<and>
   analyse_resume Map.empty \<lparr>construct = \<lambda>k. None, complete = \<lambda>k r. Inr (py ''## Key Strengths'')\<rparr>
       (py ''Jane Doe'') [] [] =
     (Inl (RuntimeError missing_key_message), []) \<and>
   analyse Map.empty (\<lambda>b. Inr [Inr (Some (py ''Jane Doe''))])
       \<lparr>construct = \<lambda>k. None, complete = \<lambda>k r. Inr (py ''## Key Strengths'')\<rparr>
       unchanged_above_ascii
       \<lparr>resume_file = Some (py ''cv.PDF'', [37, 80, 68, 70 :: nat]), job_description_field = None\<rparr> [] =
     (Form_with_error missing_key_message, [])"
proof -
  have h: "Map.empty (py ''GROQ_API_KEY'') = None \<or> Map.empty (py ''GROQ_API_KEY'') = Some []"
    by simp
  have r: "resume_file \<lparr>resume_file = Some (py ''cv.PDF'', [37, 80, 68, 70 :: nat]),
                        job_description_field = None\<rparr> = Some (py ''cv.PDF'', [37, 80, 68, 70 :: nat]) \<and>
      py ''cv.PDF'' \<noteq> [] \<and> allowed_file unchanged_above_ascii (py ''cv.PDF'') \<and>
      extract_text_from_pdf (\<lambda>b. Inr [Inr (Some (py ''Jane Doe''))]) [37, 80, 68, 70 :: nat] =
        Inr (py ''Jane Doe'')"
    by (simp add: eval_defs allowed_file_def after_last_dot_def extract_text_from_pdf_def
        truthy_def text_of_def)
  from missing_credential_stops_analysis[OF h, THEN conjunct1]
    missing_credential_stops_analysis[OF h, THEN conjunct2, THEN mp, OF r]
  show ?thesis using h by blast
qed

section \<open>Documents without text\<close>

text \<open>
  C10. When the library delivers the pages and their texts, \<open>extract_text_from_pdf\<close>
  raises its \<open>ValueError\<close> exactly when the concatenation of the texts of all pages is
  empty after trimming. Otherwise it returns the trimmed texts of the pages that have
  text, in page order, joined by blank lines; a page without text is passed over.
\<close>

theorem extraction_error_iff_no_text:
  assumes "lib pdf_bytes = Inr (map Inr texts)"
  shows "(extract_text_from_pdf lib pdf_bytes = Inl (ValueError no_text_message) \<longleftrightarrow>
            strip (concat (map text_of texts)) = []) \<and>
         (strip (concat (map text_of texts)) \<noteq> [] \<longrightarrow>
            extract_text_from_pdf lib pdf_bytes =
              Inr (join_blank (map strip (filter (\<lambda>t. t \<noteq> []) (map text_of texts)))))"
proof -
  let ?kept = "map strip (filter (\<lambda>t. t \<noteq> []) (map text_of texts))"
  have b: "strip (join_blank ?kept) = [] \<longleftrightarrow> strip (concat (map text_of texts)) = []"
    unfolding join_blank_blank_iff by (rule kept_pages_blank_iff)
  have e: "extract_text_from_pdf lib pdf_bytes =
      (if strip (join_blank ?kept) = [] then Inl (ValueError no_text_message)
       else Inr (join_blank ?kept))"
    using extract_pages_ok[of texts "[]"]
    by (simp add: extract_text_from_pdf_def assms Let_def)
  show ?thesis unfolding e b[symmetric] by simp
qed

theorem extraction_error_iff_no_text_witness:
  "(\<lambda>b. if b = [37, 80, 68, 70 :: nat]
         then Inr (map Inr [Some (py '' a ''), None, Some [], Some (py ''b'')])
         else Inl (OtherException [])) [37, 80, 68, 70 :: nat] =
     Inr (map Inr [Some (py '' a ''), None, Some [], Some (py ''b'')]) \<and>
   strip (concat (map text_of [Some (py '' a ''), None, Some [], Some (py ''b'')])) \<noteq> [] \<and>
   extract_text_from_pdf
     (\<lambda>b. if b = [37, 80, 68, 70 :: nat]
          then Inr (map Inr [Some (py '' a ''), None, Some [], Some (py ''b'')])
          else Inl (OtherException [])) [37, 80, 68, 70 :: nat] =
     Inr (py ''a\<newline>\<newline>b'') \<and>
   (\<lambda>b. if b = [37, 80, 68, 70 :: nat] then Inr (map Inr [Some (py ''  ''), None])
         else Inl (OtherException [])) [37, 80, 68, 70 :: nat] =
     Inr (map Inr [Some (py ''  ''), None]) \<and>
   strip (concat (map text_of [Some (py ''  ''), None])) = [] \<and>
   extract_text_from_pdf
     (\<lambda>b. if b = [37, 80, 68, 70 :: nat] then Inr (map Inr [Some (py ''  ''), None])
          else Inl (OtherException [])) [37, 80, 68, 70 :: nat] =
     Inl (ValueError no_text_message)"
proof -
  have h1: "(\<lambda>b. if b = [37, 80, 68, 70 :: nat]
         then Inr (map Inr [Some (py '' a ''), None, Some [], Some (py ''b'')])
         else Inl (OtherException [])) [37, 80, 68, 70 :: nat] =
     Inr (map Inr [Some (py '' a ''), None, Some [], Some (py ''b'')])"
    by simp
  have n1: "strip (concat (map text_of [Some (py '' a ''), None, Some [], Some (py ''b'')])) \<noteq> []"
    by (simp add: eval_defs text_of_def)
  have v1: "join_blank (map strip (filter (\<lambda>t. t \<noteq> [])
      (map text_of [Some (py '' a ''), None, Some [], Some (py ''b'')]))) = py ''a\<newline>\<newline>b''"
    by (simp add: eval_defs text_of_def)
  have h2: "(\<lambda>b. if b = [37, 80, 68, 70 :: nat] then Inr (map Inr [Some (py ''  ''), None])
         else Inl (OtherException [])) [37, 80, 68, 70 :: nat] =
     Inr (map Inr [Some (py ''  ''), None])"
    by simp
  have n2: "strip (concat (map text_of [Some (py ''  ''), None])) = []"
    by (simp add: eval_defs text_of_def)
  note t1 = extraction_error_iff_no_text
      [where lib = "\<lambda>b. if b = [37, 80, 68, 70 :: nat]
         then Inr (map Inr [Some (py '' a ''), None, Some [], Some (py ''b'')])
         else Inl (OtherException [])"
       and pdf_bytes = "[37, 80, 68, 70 :: nat]"
       and texts = "[Some (py '' a ''), None, Some [], Some (py ''b'')]", OF h1]
  note t2 = extraction_error_iff_no_text
      [where lib = "\<lambda>b. if b = [37, 80, 68, 70 :: nat] then Inr (map Inr [Some (py ''  ''), None])
         else Inl (OtherException [])"
       and pdf_bytes = "[37, 80, 68, 70 :: nat]"
       and texts = "[Some (py ''  ''), None]", OF h2]
  from t1[THEN conjunct2, THEN mp, OF n1] t2[THEN conjunct1, THEN iffD2, OF n2]
  show ?thesis using h1 n1 h2 n2 unfolding v1 by blast
qed

end
